theory Spec2Isabelle
  imports Main "HOL-Library.AList"
begin

section \<open>Data model (types.ts)\<close>

text \<open>
  JavaScript numbers carrying epoch-millisecond timestamps are modelled as \<open>int\<close>;
  an optional field (\<open>updatedAt?\<close>, \<open>category?\<close>) is an \<open>option\<close>.
\<close>

datatype ItemType = Word | Sentence

datatype Category = Dictation | ReadSpeak

record VocabularyItem =
  item_id :: string
  chinese :: string
  english :: string
  item_type :: ItemType
  item_createdAt :: int

record VocabularyLibrary =
  lib_id :: string
  lib_name :: string
  category :: "Category option"
  items :: "VocabularyItem list"
  createdAt :: int
  updatedAt :: "int option"

section \<open>JavaScript containers\<close>

text \<open>
  A JavaScript \<open>Set\<close> iterates in insertion order and ignores the insertion of a value
  it already holds: it is a duplicate-free list, grown at the end.
\<close>

definition set_add :: "'a \<Rightarrow> 'a list \<Rightarrow> 'a list" where
  "set_add x s = (if x \<in> set s then s else s @ [x])"

definition new_Set :: "'a list \<Rightarrow> 'a list" where
  "new_Set xs = fold set_add xs []"

text \<open>
  A JavaScript \<open>Map\<close> also iterates in insertion order of its keys, and \<open>set\<close> on a key
  it already holds replaces the value in place: an association list with
  \<^const>\<open>map_of\<close> for \<open>get\<close> and \<^const>\<open>AList.update\<close> for \<open>set\<close>.
\<close>

type_synonym LibMap = "(string \<times> VocabularyLibrary) list"

section \<open>The tombstone-aware merge (utils/cloudSync.ts)\<close>

record MergeResult =
  merged :: "VocabularyLibrary list"
  finalDeletedIds :: "string list"

text \<open>\<open>a || b\<close> on numbers: \<open>a\<close> unless it is falsy (zero), else \<open>b\<close>.\<close>

definition num_or :: "int \<Rightarrow> int \<Rightarrow> int" where
  "num_or a b = (if a \<noteq> 0 then a else b)"

text \<open>\<open>lib.updatedAt || lib.createdAt || 0\<close>; an absent \<open>updatedAt\<close> is falsy.\<close>

definition libTime :: "VocabularyLibrary \<Rightarrow> int" where
  "libTime lib =
     (case updatedAt lib of
        Some u \<Rightarrow> num_or u (num_or (createdAt lib) 0)
      | None \<Rightarrow> num_or (createdAt lib) 0)"

definition processLib :: "string list \<Rightarrow> LibMap \<Rightarrow> VocabularyLibrary \<Rightarrow> LibMap" where
  "processLib allDeletedIds mergedMap lib =
     (if lib_id lib \<in> set allDeletedIds then mergedMap
      else case map_of mergedMap (lib_id lib) of
        None \<Rightarrow> AList.update (lib_id lib) lib mergedMap
      | Some existing \<Rightarrow>
          (if libTime lib > libTime existing
           then AList.update (lib_id lib) lib mergedMap
           else mergedMap))"

definition smartMergeLibraries ::
  "VocabularyLibrary list \<Rightarrow> VocabularyLibrary list \<Rightarrow> string list \<Rightarrow> string list
     \<Rightarrow> MergeResult" where
  "smartMergeLibraries localLibs remoteLibs localDeletedIds remoteDeletedIds =
     (let allDeletedIds = new_Set (localDeletedIds @ remoteDeletedIds);
          mergedMap = foldl (processLib allDeletedIds)
                        (foldl (processLib allDeletedIds) [] localLibs) remoteLibs
      in \<lparr> merged = map snd mergedMap, finalDeletedIds = allDeletedIds \<rparr>)"

text \<open>
  The spec's wording of the effective timestamp, \<open>max(updatedAt, createdAt)\<close>, kept
  apart from \<^const>\<open>libTime\<close> so that the two can be compared.
\<close>

definition spec_effective_time :: "VocabularyLibrary \<Rightarrow> int" where
  "spec_effective_time lib =
     (case updatedAt lib of Some u \<Rightarrow> max u (createdAt lib) | None \<Rightarrow> createdAt lib)"

text \<open>A library with no items and no category, for concrete inputs.\<close>

definition mk_lib :: "string \<Rightarrow> string \<Rightarrow> int \<Rightarrow> int option \<Rightarrow> VocabularyLibrary" where
  "mk_lib i n c u =
     \<lparr> lib_id = i, lib_name = n, category = None, items = [], createdAt = c, updatedAt = u \<rparr>"

subsection \<open>Auxiliary notions for the proofs\<close>

text \<open>
  Every key of the map is the id of the library stored under it and is not
  tombstoned; keys are pairwise distinct.
\<close>

definition keyed :: "string list \<Rightarrow> LibMap \<Rightarrow> bool" where
  "keyed D m = (distinct (map fst m) \<and> list_all (\<lambda>(k, v). lib_id v = k \<and> k \<notin> set D) m)"

text \<open>What \<^const>\<open>processLib\<close> does to the entry of the id of the library it is given.\<close>

definition pick :: "VocabularyLibrary option \<Rightarrow> VocabularyLibrary \<Rightarrow> VocabularyLibrary option" where
  "pick acc lib =
     (case acc of
        None \<Rightarrow> Some lib
      | Some existing \<Rightarrow> (if libTime lib > libTime existing then Some lib else Some existing))"

section \<open>The sync orchestrator (utils/cloudSync.ts)\<close>

text \<open>
  Modelled from the spec: the \<open>PracticeProgress\<close> type and the Local Store helpers of
  \<open>utils/storage\<close> (\<open>loadLibraries\<close>, \<open>saveLibraries\<close>, \<open>getDeletedLibraryIds\<close>,
  \<open>addDeletedLibraryId\<close>, \<open>loadPracticeProgress\<close>, \<open>savePracticeProgress\<close>), which
  \<open>cloudSync.ts\<close> imports. The spec gives the progress "which library, position, and a
  timestamp" and the store plain get/set semantics over the libraries, the tombstone
  set and the progress.
\<close>

record PracticeProgress =
  pp_libraryId :: string
  pp_position :: nat
  timestamp :: int

record LocalStore =
  ls_libraries :: "VocabularyLibrary list"
  ls_deletedLibraryIds :: "string list"
  ls_practiceProgress :: "PracticeProgress option"

definition loadLibraries :: "LocalStore \<Rightarrow> VocabularyLibrary list" where
  "loadLibraries st = ls_libraries st"

definition saveLibraries :: "VocabularyLibrary list \<Rightarrow> LocalStore \<Rightarrow> LocalStore" where
  "saveLibraries libs st = st\<lparr>ls_libraries := libs\<rparr>"

definition getDeletedLibraryIds :: "LocalStore \<Rightarrow> string list" where
  "getDeletedLibraryIds st = ls_deletedLibraryIds st"

definition addDeletedLibraryId :: "string \<Rightarrow> LocalStore \<Rightarrow> LocalStore" where
  "addDeletedLibraryId i st = st\<lparr>ls_deletedLibraryIds := set_add i (ls_deletedLibraryIds st)\<rparr>"

definition loadPracticeProgress :: "LocalStore \<Rightarrow> PracticeProgress option" where
  "loadPracticeProgress st = ls_practiceProgress st"

definition savePracticeProgress :: "PracticeProgress \<Rightarrow> LocalStore \<Rightarrow> LocalStore" where
  "savePracticeProgress p st = st\<lparr>ls_practiceProgress := Some p\<rparr>"

text \<open>
  A field of the fetched document that the code tests with \<open>Array.isArray\<close>: either an
  array or any other value (absent, null, a string, an object).
\<close>

datatype 'a js_field = IsArray "'a list" | NotArray

text \<open>
  The per-user document \<open>CloudProfile\<close>. The server-assigned \<open>_ts\<close> is not read by the
  code and is left out.
\<close>

record CloudProfile =
  d_libraries :: "VocabularyLibrary js_field"
  d_deletedLibraryIds :: "string js_field"
  d_practiceProgress :: "PracticeProgress option"
  d_updatedAt :: "int option"

text \<open>The error object a failed Firestore call throws: its \<open>code\<close> and \<open>message\<close>.\<close>

record FsError =
  err_code :: string
  err_message :: string

text \<open>
  The error \<open>pullAndMerge\<close> rethrows. The source distinguishes the three kinds by the
  text of the message; \<open>Unknown\<close> carries the underlying message.
\<close>

datatype SyncError = PermissionDenied | Unavailable | Unknown string

definition classify :: "FsError \<Rightarrow> SyncError" where
  "classify e =
     (if err_code e = ''permission-denied'' then PermissionDenied
      else if err_code e = ''unavailable'' then Unavailable
      else Unknown (if err_message e \<noteq> [] then err_message e else ''unknown''))"

text \<open>
  What the surroundings decide during one call: the clock, whether the fetch and the
  upload fail, and whether persisting the progress throws.
\<close>

record Env =
  now :: int
  getDoc_error :: "FsError option"
  setDoc_error :: "FsError option"
  savePracticeProgress_throws :: bool

record World =
  local_store :: LocalStore
  remote_doc :: "CloudProfile option"

definition array_or_empty :: "'a js_field \<Rightarrow> 'a list" where
  "array_or_empty f = (case f of IsArray xs \<Rightarrow> xs | NotArray \<Rightarrow> [])"

text \<open>The immediately-invoked function that resolves the progress.\<close>

definition chooseProgress ::
  "PracticeProgress option \<Rightarrow> PracticeProgress option \<Rightarrow> PracticeProgress option" where
  "chooseProgress remoteProgress localProgress =
     (case (remoteProgress, localProgress) of
        (Some r, Some l) \<Rightarrow>
          (if num_or (timestamp r) 0 \<ge> num_or (timestamp l) 0 then Some r else Some l)
      | (Some r, None) \<Rightarrow> Some r
      | (None, l) \<Rightarrow> l)"

definition setDoc :: "Env \<Rightarrow> CloudProfile \<Rightarrow> World \<Rightarrow> (SyncError + unit) \<times> World" where
  "setDoc env payload w =
     (case setDoc_error env of
        Some e \<Rightarrow> (Inl (classify e), w)
      | None \<Rightarrow> (Inr (), w\<lparr>remote_doc := Some payload\<rparr>))"

definition pullAndMerge :: "Env \<Rightarrow> World \<Rightarrow> (SyncError + unit) \<times> World" where
  "pullAndMerge env w =
     (case getDoc_error env of
        Some e \<Rightarrow> (Inl (classify e), w)
      | None \<Rightarrow>
         (let localLibs = loadLibraries (local_store w);
              localProgress = loadPracticeProgress (local_store w);
              localDeletedIds = getDeletedLibraryIds (local_store w)
          in case remote_doc w of
               None \<Rightarrow>
                 setDoc env
                   \<lparr> d_libraries = IsArray localLibs,
                     d_deletedLibraryIds = IsArray localDeletedIds,
                     d_practiceProgress = localProgress,
                     d_updatedAt = Some (now env) \<rparr> w
             | Some data \<Rightarrow>
                 (let remoteLibs = array_or_empty (d_libraries data);
                      remoteDeletedIds = array_or_empty (d_deletedLibraryIds data);
                      r = smartMergeLibraries localLibs remoteLibs localDeletedIds remoteDeletedIds;
                      st1 = saveLibraries (merged r) (local_store w);
                      st2 = foldl (\<lambda>st i. if i \<notin> set localDeletedIds
                                            then addDeletedLibraryId i st else st)
                              st1 (finalDeletedIds r);
                      remoteProgress = d_practiceProgress data;
                      chosen = chooseProgress remoteProgress localProgress;
                      st3 = (case chosen of
                               Some p \<Rightarrow> (if savePracticeProgress_throws env then st2
                                          else savePracticeProgress p st2)
                             | None \<Rightarrow> st2)
                  in setDoc env
                       \<lparr> d_libraries = IsArray (merged r),
                         d_deletedLibraryIds = IsArray (finalDeletedIds r),
                         d_practiceProgress = chosen,
                         d_updatedAt = Some (now env) \<rparr>
                       (w\<lparr>local_store := st3\<rparr>))))"

section \<open>The superseded item-union merge\<close>

definition type_str :: "ItemType \<Rightarrow> string" where
  "type_str t = (case t of Word \<Rightarrow> ''word'' | Sentence \<Rightarrow> ''sentence'')"

definition uniqueKeyOfItem :: "VocabularyItem \<Rightarrow> string" where
  "uniqueKeyOfItem it = type_str (item_type it) @ ''#'' @ english it @ ''#'' @ chinese it"

text \<open>
  The loop over \<open>lib.items\<close>: \<open>seen\<close> is the set of keys met so far, the last argument
  the item array of the library already in the map, pushed to at its end.
\<close>

fun push_items ::
  "VocabularyItem list \<Rightarrow> string list \<Rightarrow> VocabularyItem list \<Rightarrow> VocabularyItem list" where
  "push_items [] seen existed_items = existed_items"
| "push_items (it # its) seen existed_items =
     (let key = uniqueKeyOfItem it
      in if key \<notin> set seen
         then push_items its (set_add key seen) (existed_items @ [it])
         else push_items its seen existed_items)"

text \<open>
  \<open>items.sort((x, y) => (y.createdAt || 0) - (x.createdAt || 0))\<close>: the built-in sort is
  stable, and so is \<^const>\<open>sort_key\<close>; descending order is ascending order of the
  negated key.
\<close>

definition sort_items :: "VocabularyItem list \<Rightarrow> VocabularyItem list" where
  "sort_items its = sort_key (\<lambda>x. - num_or (item_createdAt x) 0) its"

definition pushLib :: "LibMap \<Rightarrow> VocabularyLibrary \<Rightarrow> LibMap" where
  "pushLib byId lib =
     (case map_of byId (lib_id lib) of
        None \<Rightarrow> AList.update (lib_id lib) lib byId
      | Some existed \<Rightarrow>
          AList.update (lib_id lib)
            (existed\<lparr>items :=
               sort_items (push_items (items lib)
                 (new_Set (map uniqueKeyOfItem (items existed))) (items existed))\<rparr>)
            byId)"

definition mergeLibraries ::
  "VocabularyLibrary list \<Rightarrow> VocabularyLibrary list \<Rightarrow> VocabularyLibrary list" where
  "mergeLibraries a b = map snd (foldl pushLib (foldl pushLib [] a) b)"

text \<open>
  The spec's wording of the item identity: the triple of kind, target text and native
  text; and the items of a list whose triple is neither among the given ones nor met
  earlier in the list.
\<close>

definition item_triple :: "VocabularyItem \<Rightarrow> ItemType \<times> string \<times> string" where
  "item_triple it = (item_type it, english it, chinese it)"

fun new_items ::
  "(ItemType \<times> string \<times> string) list \<Rightarrow> VocabularyItem list \<Rightarrow> VocabularyItem list" where
  "new_items ks [] = []"
| "new_items ks (it # its) =
     (if item_triple it \<in> set ks then new_items ks its
      else it # new_items (item_triple it # ks) its)"

definition mk_item :: "string \<Rightarrow> string \<Rightarrow> string \<Rightarrow> int \<Rightarrow> VocabularyItem" where
  "mk_item i e c t =
     \<lparr> item_id = i, chinese = c, english = e, item_type = Word, item_createdAt = t \<rparr>"

subsection \<open>Auxiliary notions for the proofs\<close>

definition key_of_triple :: "ItemType \<times> string \<times> string \<Rightarrow> string" where
  "key_of_triple k = (case k of (t, e, c) \<Rightarrow> type_str t @ ''#'' @ e @ ''#'' @ c)"

definition merge_items :: "VocabularyItem list \<Rightarrow> VocabularyItem list \<Rightarrow> VocabularyItem list" where
  "merge_items ex its =
     sort_items (push_items its (new_Set (map uniqueKeyOfItem ex)) ex)"

definition absorb :: "VocabularyLibrary option \<Rightarrow> VocabularyLibrary \<Rightarrow> VocabularyLibrary option" where
  "absorb acc lib =
     (case acc of
        None \<Rightarrow> Some lib
      | Some existed \<Rightarrow> Some (existed\<lparr>items := merge_items (items existed) (items lib)\<rparr>))"

section \<open>Properties of the containers\<close>

lemma set_fold_set_add: "set (fold set_add xs acc) = set acc \<union> set xs"
  by (induction xs arbitrary: acc) (auto simp: set_add_def)

lemma set_new_Set: "set (new_Set xs) = set xs"
  by (simp add: new_Set_def set_fold_set_add)

lemma distinct_fold_set_add: "distinct acc \<Longrightarrow> distinct (fold set_add xs acc)"
  by (induction xs arbitrary: acc) (auto simp: set_add_def)

lemma distinct_new_Set: "distinct (new_Set xs)"
  by (simp add: new_Set_def distinct_fold_set_add)

lemma fold_set_add_absorb: "set xs \<subseteq> set acc \<Longrightarrow> fold set_add xs acc = acc"
  by (induction xs arbitrary: acc) (auto simp: set_add_def)

lemma fold_set_add_distinct:
  "distinct (acc @ xs) \<Longrightarrow> fold set_add xs acc = acc @ xs"
  by (induction xs arbitrary: acc) (auto simp: set_add_def)

lemma new_Set_absorb:
  assumes "distinct d" and "set ys \<subseteq> set d"
  shows "new_Set (d @ ys) = d"
proof -
  have "fold set_add d [] = d"
    using fold_set_add_distinct [of "[]" d] assms(1) by simp
  then show ?thesis
    using assms(2) by (simp add: new_Set_def fold_set_add_absorb)
qed

section \<open>Invariant of the merge map\<close>

lemma keyed_Nil: "keyed D []"
  by (simp add: keyed_def)

lemma list_all_update:
  "list_all P m \<Longrightarrow> P (k, v) \<Longrightarrow> list_all P (AList.update k v m)"
  by (induction m) auto

lemma keyed_processLib: "keyed D m \<Longrightarrow> keyed D (processLib D m lib)"
  by (auto simp: keyed_def processLib_def distinct_update list_all_update
      split: option.splits)

lemma keyed_foldl: "keyed D m \<Longrightarrow> keyed D (foldl (processLib D) m xs)"
  by (induction xs arbitrary: m) (simp_all add: keyed_processLib)

lemma keyed_ids: "keyed D m \<Longrightarrow> l \<in> set (map snd m) \<Longrightarrow> lib_id l \<notin> set D"
  by (auto simp: keyed_def list_all_iff)

section \<open>The entry of one library id\<close>

lemma pick_None: "pick None y = Some y"
  by (simp add: pick_def)

lemma pick_Some: "pick (Some e) y = Some (if libTime y > libTime e then y else e)"
  by (simp add: pick_def)

lemma map_of_processLib:
  "map_of (processLib D m lib) i =
     (if lib_id lib = i \<and> i \<notin> set D then pick (map_of m i) lib else map_of m i)"
  by (auto simp: processLib_def pick_def update_conv' split: option.splits)

lemma map_of_foldl_processLib:
  "i \<notin> set D \<Longrightarrow>
   map_of (foldl (processLib D) m xs) i =
     foldl pick (map_of m i) (filter (\<lambda>l. lib_id l = i) xs)"
  by (induction xs arbitrary: m) (simp_all add: map_of_processLib)

lemma keyed_filter:
  "keyed D m \<Longrightarrow> map_of m i = Some v \<Longrightarrow> filter (\<lambda>l. lib_id l = i) (map snd m) = [v]"
proof (induction m)
  case Nil
  then show ?case by simp
next
  case (Cons p m)
  obtain k u where p: "p = (k, u)" by (cases p)
  from Cons.prems(1) have km: "keyed D m" and ku: "lib_id u = k" and kn: "k \<notin> fst ` set m"
    by (auto simp: keyed_def p)
  show ?case
  proof (cases "k = i")
    case True
    with Cons.prems(2) p have "u = v" by simp
    moreover have "filter (\<lambda>l. lib_id l = i) (map snd m) = []"
    proof -
      have "\<And>l. l \<in> set (map snd m) \<Longrightarrow> lib_id l \<noteq> i"
      proof
        fix l assume "l \<in> set (map snd m)" and li: "lib_id l = i"
        then obtain q where q: "q \<in> set m" and "snd q = l" by auto
        with km have "lib_id l = fst q"
          by (auto simp: keyed_def list_all_iff)
        with q li True kn show False by force
      qed
      then show ?thesis by (simp add: filter_empty_conv)
    qed
    ultimately show ?thesis using p ku True by simp
  next
    case False
    with Cons.prems(2) p have "map_of m i = Some v" by simp
    with Cons.IH km have "filter (\<lambda>l. lib_id l = i) (map snd m) = [v]" by simp
    with p ku False show ?thesis by simp
  qed
qed

lemma merge_shared_id:
  assumes a: "filter (\<lambda>l. lib_id l = i) ll = [a]"
    and b: "filter (\<lambda>l. lib_id l = i) rl = [b]"
    and i: "i \<notin> set ld \<union> set rd"
  shows "filter (\<lambda>l. lib_id l = i) (merged (smartMergeLibraries ll rl ld rd)) =
           [if libTime b > libTime a then b else a]"
proof -
  let ?D = "new_Set (ld @ rd)"
  let ?m = "foldl (processLib ?D) (foldl (processLib ?D) [] ll) rl"
  have iD: "i \<notin> set ?D" using i by (simp add: set_new_Set)
  have "?m = foldl (processLib ?D) [] (ll @ rl)" by simp
  then have "map_of ?m i = foldl pick None (filter (\<lambda>l. lib_id l = i) (ll @ rl))"
    using map_of_foldl_processLib [OF iD, of "[]" "ll @ rl"] by simp
  also have "\<dots> = Some (if libTime b > libTime a then b else a)"
    using a b by (simp add: pick_None pick_Some)
  finally have "map_of ?m i = Some (if libTime b > libTime a then b else a)" .
  moreover have "keyed ?D ?m" by (intro keyed_foldl keyed_Nil)
  ultimately have "filter (\<lambda>l. lib_id l = i) (map snd ?m) = [if libTime b > libTime a then b else a]"
    by (rule keyed_filter [rotated])
  then show ?thesis by (simp add: smartMergeLibraries_def Let_def)
qed


lemma update_fresh: "k \<notin> fst ` set m \<Longrightarrow> AList.update k v m = m @ [(k, v)]"
  by (induction m) auto

lemma foldl_processLib_keyed:
  "keyed D (m0 @ m) \<Longrightarrow> foldl (processLib D) m0 (map snd m) = m0 @ m"
proof (induction m arbitrary: m0)
  case Nil
  then show ?case by simp
next
  case (Cons p m)
  obtain k v where p: "p = (k, v)" by (cases p)
  from Cons.prems have kv: "lib_id v = k" and kD: "k \<notin> set D" and k0: "k \<notin> fst ` set m0"
    by (auto simp: keyed_def p)
  from k0 have "map_of m0 k = None"
    by (simp add: map_of_eq_None_iff)
  with kv kD k0 have "processLib D m0 v = m0 @ [(k, v)]"
    by (simp add: processLib_def update_fresh)
  moreover from Cons.prems have "keyed D ((m0 @ [(k, v)]) @ m)"
    by (simp add: p)
  ultimately show ?case
    using Cons.IH [of "m0 @ [(k, v)]"] by (simp add: p)
qed

lemma foldl_pick_Some:
  "\<exists>e'. foldl pick (Some e) ys = Some e' \<and> libTime e \<le> libTime e'"
proof (induction ys arbitrary: e)
  case Nil
  then show ?case by simp
next
  case (Cons y ys)
  show ?case
  proof (cases "libTime y > libTime e")
    case True
    obtain e' where "foldl pick (Some y) ys = Some e'" and "libTime y \<le> libTime e'"
      using Cons.IH [of y] by blast
    with True show ?thesis by (auto simp: pick_Some)
  next
    case False
    then show ?thesis using Cons.IH [of e] by (simp add: pick_Some)
  qed
qed

lemma foldl_pick_bound:
  "x \<in> set ys \<Longrightarrow> \<exists>e. foldl pick acc ys = Some e \<and> libTime x \<le> libTime e"
proof (induction ys arbitrary: acc)
  case Nil
  then show ?case by simp
next
  case (Cons y ys)
  obtain e0 where e0: "pick acc y = Some e0" and ye0: "libTime y \<le> libTime e0"
    by (cases acc) (auto simp: pick_None pick_Some)
  show ?case
  proof (cases "x = y")
    case True
    obtain e' where "foldl pick (Some e0) ys = Some e'" and "libTime e0 \<le> libTime e'"
      using foldl_pick_Some [of e0 ys] by blast
    with e0 ye0 True show ?thesis by auto
  next
    case False
    with Cons.prems have "x \<in> set ys" by simp
    then show ?thesis using Cons.IH [of "pick acc y"] by simp
  qed
qed

lemma processLib_bound:
  assumes "x \<in> set xs" and "lib_id x \<notin> set D"
  shows "\<exists>e. map_of (foldl (processLib D) m xs) (lib_id x) = Some e \<and> libTime x \<le> libTime e"
proof -
  from assms(1) have "x \<in> set (filter (\<lambda>l. lib_id l = lib_id x) xs)" by simp
  then show ?thesis
    using foldl_pick_bound map_of_foldl_processLib [OF assms(2)] by simp
qed

lemma foldl_processLib_fixed:
  "(\<And>x. x \<in> set xs \<Longrightarrow> processLib D m x = m) \<Longrightarrow> foldl (processLib D) m xs = m"
  by (induction xs) simp_all

section \<open>Tombstones\<close>

text \<open>
  C5. The tombstone list returned by the merge holds exactly the ids of the local and
  the remote tombstone inputs: as a set it is their union, so it contains each input
  and merging never removes a tombstone.
\<close>

theorem tombstone_union:
  "set (finalDeletedIds (smartMergeLibraries ll rl ld rd)) = set ld \<union> set rd"
  by (simp add: smartMergeLibraries_def Let_def set_new_Set)

text \<open>
  C1. A library id that is tombstoned on either side does not occur among the merged
  libraries, whatever the timestamps of its copies are.
\<close>

theorem tombstone_dominance:
  assumes "i \<in> set ld \<union> set rd"
  shows "i \<notin> lib_id ` set (merged (smartMergeLibraries ll rl ld rd))"
proof
  let ?D = "new_Set (ld @ rd)"
  let ?m = "foldl (processLib ?D) (foldl (processLib ?D) [] ll) rl"
  assume "i \<in> lib_id ` set (merged (smartMergeLibraries ll rl ld rd))"
  then obtain l where l: "l \<in> set (map snd ?m)" and i: "i = lib_id l"
    by (auto simp: smartMergeLibraries_def Let_def)
  have "keyed ?D ?m"
    by (intro keyed_foldl keyed_Nil)
  then have "lib_id l \<notin> set ?D"
    using l by (rule keyed_ids)
  with assms i show False
    by (simp add: set_new_Set)
qed

theorem tombstone_dominance_witness:
  "''b'' \<in> set [] \<union> set [''b''] \<and>
   ''b'' \<notin> lib_id ` set (merged (smartMergeLibraries
       [mk_lib ''a'' ''local'' 1 (Some 10)]
       [mk_lib ''a'' ''remote'' 1 (Some 5), mk_lib ''b'' ''remote'' 1 (Some 1)]
       [] [''b'']))"
  using tombstone_dominance [of "''b''" "[]" "[''b'']"
      "[mk_lib ''a'' ''local'' 1 (Some 10)]"
      "[mk_lib ''a'' ''remote'' 1 (Some 5), mk_lib ''b'' ''remote'' 1 (Some 1)]"]
  by simp

section \<open>Libraries present on both sides\<close>

text \<open>
  C2, as the code has it. For a library id that is not tombstoned and occurs once in
  the local and once in the remote input, the merged list holds exactly one library
  of that id: the remote copy when its effective timestamp
  \<open>updatedAt || createdAt || 0\<close> is strictly larger than the local copy's, and the
  local copy (processed first) otherwise, in particular when the two are equal.
\<close>

theorem shared_id_keeps_newer:
  assumes "filter (\<lambda>l. lib_id l = i) ll = [a]"
    and "filter (\<lambda>l. lib_id l = i) rl = [b]"
    and "i \<notin> set ld \<union> set rd"
  shows "filter (\<lambda>l. lib_id l = i) (merged (smartMergeLibraries ll rl ld rd)) =
           [if libTime b > libTime a then b else a]"
  using assms by (rule merge_shared_id)

theorem shared_id_keeps_newer_witness:
  "filter (\<lambda>l. lib_id l = ''a'') [mk_lib ''a'' ''local'' 1 (Some 5)]
     = [mk_lib ''a'' ''local'' 1 (Some 5)] \<and>
   filter (\<lambda>l. lib_id l = ''a'') [mk_lib ''a'' ''remote'' 1 (Some 5)]
     = [mk_lib ''a'' ''remote'' 1 (Some 5)] \<and>
   ''a'' \<notin> set [] \<union> set [''z''] \<and>
   filter (\<lambda>l. lib_id l = ''a'')
     (merged (smartMergeLibraries [mk_lib ''a'' ''local'' 1 (Some 5)]
        [mk_lib ''a'' ''remote'' 1 (Some 5)] [] [''z'']))
     = [mk_lib ''a'' ''local'' 1 (Some 5)]"
  using shared_id_keeps_newer [of "''a''" "[mk_lib ''a'' ''local'' 1 (Some 5)]"
      "mk_lib ''a'' ''local'' 1 (Some 5)" "[mk_lib ''a'' ''remote'' 1 (Some 5)]"
      "mk_lib ''a'' ''remote'' 1 (Some 5)" "[]" "[''z'']"]
  by (simp add: mk_lib_def libTime_def num_or_def)

text \<open>
  C2 as the spec words it fails twice. With the effective timestamp read as
  \<open>max(updatedAt, createdAt)\<close> the local copy below is the newer one (10 against 7),
  yet the remote copy is kept, since the code compares \<open>updatedAt\<close> (5 against 7).
  And for two copies of equal timestamps the local copy is kept, not the remote one.
\<close>

theorem shared_id_max_counterexample:
  "spec_effective_time (mk_lib ''a'' ''local'' 10 (Some 5))
     > spec_effective_time (mk_lib ''a'' ''remote'' 1 (Some 7)) \<and>
   merged (smartMergeLibraries [mk_lib ''a'' ''local'' 10 (Some 5)]
       [mk_lib ''a'' ''remote'' 1 (Some 7)] [] [])
     = [mk_lib ''a'' ''remote'' 1 (Some 7)] \<and>
   spec_effective_time (mk_lib ''a'' ''local'' 1 (Some 5))
     = spec_effective_time (mk_lib ''a'' ''remote'' 1 (Some 5)) \<and>
   merged (smartMergeLibraries [mk_lib ''a'' ''local'' 1 (Some 5)]
       [mk_lib ''a'' ''remote'' 1 (Some 5)] [] [])
     = [mk_lib ''a'' ''local'' 1 (Some 5)] \<and>
   mk_lib ''a'' ''local'' 1 (Some 5) \<noteq> mk_lib ''a'' ''remote'' 1 (Some 5)"
  by (simp add: smartMergeLibraries_def processLib_def new_Set_def mk_lib_def
      libTime_def num_or_def spec_effective_time_def)

text \<open>
  C3. When the local and the remote input each hold one library of an id that is not
  tombstoned, one with \<open>updatedAt\<close> 100 and the other with \<open>updatedAt\<close> 200, the merged
  list holds for that id exactly the library with \<open>updatedAt\<close> 200.
\<close>

theorem last_write_wins_100_200:
  assumes "filter (\<lambda>l. lib_id l = i) ll = [a]"
    and "filter (\<lambda>l. lib_id l = i) rl = [b]"
    and "i \<notin> set ld \<union> set rd"
    and "(updatedAt a = Some 100 \<and> updatedAt b = Some 200) \<or>
         (updatedAt a = Some 200 \<and> updatedAt b = Some 100)"
  shows "filter (\<lambda>l. lib_id l = i) (merged (smartMergeLibraries ll rl ld rd)) =
           [if updatedAt a = Some 200 then a else b]"
proof -
  from assms(4) have "(libTime b > libTime a) = (updatedAt a \<noteq> Some 200)"
    by (auto simp: libTime_def num_or_def)
  then show ?thesis
    using merge_shared_id [OF assms(1-3)] by auto
qed

theorem last_write_wins_100_200_witness:
  "filter (\<lambda>l. lib_id l = ''a'') [mk_lib ''a'' ''local'' 1 (Some 200)]
     = [mk_lib ''a'' ''local'' 1 (Some 200)] \<and>
   filter (\<lambda>l. lib_id l = ''a'') [mk_lib ''b'' ''other'' 1 None, mk_lib ''a'' ''remote'' 1 (Some 100)]
     = [mk_lib ''a'' ''remote'' 1 (Some 100)] \<and>
   ''a'' \<notin> set [''c''] \<union> set [] \<and>
   filter (\<lambda>l. lib_id l = ''a'')
     (merged (smartMergeLibraries [mk_lib ''a'' ''local'' 1 (Some 200)]
        [mk_lib ''b'' ''other'' 1 None, mk_lib ''a'' ''remote'' 1 (Some 100)] [''c''] []))
     = [mk_lib ''a'' ''local'' 1 (Some 200)]"
  using last_write_wins_100_200 [of "''a''" "[mk_lib ''a'' ''local'' 1 (Some 200)]"
      "mk_lib ''a'' ''local'' 1 (Some 200)"
      "[mk_lib ''b'' ''other'' 1 None, mk_lib ''a'' ''remote'' 1 (Some 100)]"
      "mk_lib ''a'' ''remote'' 1 (Some 100)" "[''c'']" "[]"]
  by (simp add: mk_lib_def)

section \<open>Idempotence\<close>


text \<open>
  C4. Merging again, with the merged libraries and the merged tombstones as the local
  side and the same remote side, returns the first merge's result: the same library
  list and the same tombstone list.
\<close>

theorem merge_idempotent:
  "smartMergeLibraries (merged (smartMergeLibraries ll rl ld rd)) rl
       (finalDeletedIds (smartMergeLibraries ll rl ld rd)) rd
     = smartMergeLibraries ll rl ld rd"
proof -
  let ?D = "new_Set (ld @ rd)"
  let ?m = "foldl (processLib ?D) (foldl (processLib ?D) [] ll) rl"
  have D: "new_Set (?D @ rd) = ?D"
    by (rule new_Set_absorb) (simp_all add: distinct_new_Set set_new_Set)
  have km: "keyed ?D ?m" by (intro keyed_foldl keyed_Nil)
  then have first: "foldl (processLib ?D) [] (map snd ?m) = ?m"
    using foldl_processLib_keyed [of ?D "[]" ?m] by simp
  have second: "foldl (processLib ?D) ?m rl = ?m"
  proof (rule foldl_processLib_fixed)
    fix x assume x: "x \<in> set rl"
    show "processLib ?D ?m x = ?m"
    proof (cases "lib_id x \<in> set ?D")
      case True
      then show ?thesis by (simp add: processLib_def)
    next
      case False
      with x obtain e where "map_of ?m (lib_id x) = Some e" and "libTime x \<le> libTime e"
        using processLib_bound [of x rl ?D "foldl (processLib ?D) [] ll"] by blast
      then show ?thesis by (simp add: processLib_def)
    qed
  qed
  show ?thesis
    unfolding smartMergeLibraries_def Let_def
    by (simp only: MergeResult.simps D first second)
qed

section \<open>Pull and merge\<close>

lemma foldl_add_deleted_progress:
  "ls_practiceProgress (foldl (\<lambda>st i. if P i then addDeletedLibraryId i st else st) st ids)
     = ls_practiceProgress st"
  by (induction ids arbitrary: st) (simp_all add: addDeletedLibraryId_def)

lemma foldl_add_deleted_libraries:
  "ls_libraries (foldl (\<lambda>st i. if P i then addDeletedLibraryId i st else st) st ids)
     = ls_libraries st"
  by (induction ids arbitrary: st) (simp_all add: addDeletedLibraryId_def)

lemma chooseProgress_cases:
  "chooseProgress rp lp =
     (case (rp, lp) of
        (Some r, Some l) \<Rightarrow> Some (if timestamp l \<le> timestamp r then r else l)
      | (Some r, None) \<Rightarrow> Some r
      | (None, Some l) \<Rightarrow> Some l
      | (None, None) \<Rightarrow> None)"
  by (simp add: chooseProgress_def num_or_def split: option.splits)

lemma chooseProgress_None: "chooseProgress rp lp = None \<Longrightarrow> lp = None"
  by (simp add: chooseProgress_def split: option.splits if_splits)

text \<open>
  C6. When a remote document exists and fetch and upload succeed, \<open>pullAndMerge\<close>
  resolves the progress to one whole \<open>PracticeProgress\<close> value: of a local and a
  remote one, the one with the larger timestamp, the remote one when the timestamps
  are equal; the only one there is when one side has none; none when neither side has
  one. The resolved progress is what the uploaded document holds, and what the Local
  Store holds afterwards when persisting it does not throw.
\<close>

theorem progress_resolution:
  assumes "remote_doc w = Some d"
    and "getDoc_error env = None"
    and "setDoc_error env = None"
  shows
    "let resolved =
       (case (d_practiceProgress d, ls_practiceProgress (local_store w)) of
          (Some r, Some l) \<Rightarrow> Some (if timestamp l \<le> timestamp r then r else l)
        | (Some r, None) \<Rightarrow> Some r
        | (None, Some l) \<Rightarrow> Some l
        | (None, None) \<Rightarrow> None)
     in fst (pullAndMerge env w) = Inr () \<and>
        map_option d_practiceProgress (remote_doc (snd (pullAndMerge env w))) = Some resolved \<and>
        (\<not> savePracticeProgress_throws env \<longrightarrow>
           ls_practiceProgress (local_store (snd (pullAndMerge env w))) = resolved)"
proof -
  let ?lp = "ls_practiceProgress (local_store w)"
  let ?c = "chooseProgress (d_practiceProgress d) ?lp"
  have up: "fst (pullAndMerge env w) = Inr () \<and>
      map_option d_practiceProgress (remote_doc (snd (pullAndMerge env w))) = Some ?c"
    using assms
    by (simp add: pullAndMerge_def setDoc_def Let_def loadPracticeProgress_def)
  have loc: "ls_practiceProgress (local_store (snd (pullAndMerge env w))) = ?c"
    if "\<not> savePracticeProgress_throws env"
  proof (cases ?c)
    case None
    then have "?lp = None" by (rule chooseProgress_None)
    with None assms that show ?thesis
      by (simp add: pullAndMerge_def setDoc_def Let_def loadPracticeProgress_def
          foldl_add_deleted_progress saveLibraries_def)
  next
    case (Some p)
    with assms that show ?thesis
      by (simp add: pullAndMerge_def setDoc_def Let_def loadPracticeProgress_def
          savePracticeProgress_def)
  qed
  show ?thesis
    unfolding Let_def chooseProgress_cases [symmetric]
    using up loc by blast
qed

text \<open>
  C8. When no remote document exists and fetch and upload succeed, \<open>pullAndMerge\<close>
  returns normally, the remote document becomes the local libraries, the local
  tombstones and the local progress as they are, with \<open>updatedAt\<close> the current time,
  and the Local Store is left as it was.
\<close>

theorem first_sync_upload:
  assumes "remote_doc w = None"
    and "getDoc_error env = None"
    and "setDoc_error env = None"
  shows "pullAndMerge env w =
     (Inr (), w\<lparr>remote_doc := Some
        \<lparr> d_libraries = IsArray (ls_libraries (local_store w)),
          d_deletedLibraryIds = IsArray (ls_deletedLibraryIds (local_store w)),
          d_practiceProgress = ls_practiceProgress (local_store w),
          d_updatedAt = Some (now env) \<rparr>\<rparr>)"
  using assms
  by (simp add: pullAndMerge_def setDoc_def Let_def loadLibraries_def
      loadPracticeProgress_def getDeletedLibraryIds_def)

text \<open>
  C7. When the remote document exists and fetch and upload succeed, \<open>pullAndMerge\<close>
  returns normally whatever the shape of the document's \<open>libraries\<close> and
  \<open>deletedLibraryIds\<close> fields: a field that is not an array is taken as the empty
  list, so the call behaves as on the document with that field empty, and the
  libraries it stores are those of the merge with the empty list in its place.
\<close>

theorem malformed_remote_coerced:
  assumes "remote_doc w = Some d"
    and "getDoc_error env = None"
    and "setDoc_error env = None"
  shows "(d_libraries d = NotArray \<longrightarrow>
            pullAndMerge env w = pullAndMerge env (w\<lparr>remote_doc := Some (d\<lparr>d_libraries := IsArray []\<rparr>)\<rparr>)) \<and>
         (d_deletedLibraryIds d = NotArray \<longrightarrow>
            pullAndMerge env w =
              pullAndMerge env (w\<lparr>remote_doc := Some (d\<lparr>d_deletedLibraryIds := IsArray []\<rparr>)\<rparr>)) \<and>
         (d_libraries d = NotArray \<longrightarrow>
            ls_libraries (local_store (snd (pullAndMerge env w))) =
              merged (smartMergeLibraries (ls_libraries (local_store w)) []
                (ls_deletedLibraryIds (local_store w)) (array_or_empty (d_deletedLibraryIds d)))) \<and>
         (d_deletedLibraryIds d = NotArray \<longrightarrow>
            ls_libraries (local_store (snd (pullAndMerge env w))) =
              merged (smartMergeLibraries (ls_libraries (local_store w))
                (array_or_empty (d_libraries d)) (ls_deletedLibraryIds (local_store w)) [])) \<and>
         fst (pullAndMerge env w) = Inr ()"
proof -
  have libs: "ls_libraries (local_store (snd (pullAndMerge env w))) =
      merged (smartMergeLibraries (ls_libraries (local_store w))
        (array_or_empty (d_libraries d)) (ls_deletedLibraryIds (local_store w))
        (array_or_empty (d_deletedLibraryIds d)))"
    using assms
    by (simp add: pullAndMerge_def setDoc_def Let_def loadLibraries_def
        getDeletedLibraryIds_def savePracticeProgress_def saveLibraries_def
        foldl_add_deleted_libraries split: option.splits)
  have same: "pullAndMerge env w = pullAndMerge env (w\<lparr>remote_doc := Some d'\<rparr>)"
    if "array_or_empty (d_libraries d') = array_or_empty (d_libraries d)"
      and "array_or_empty (d_deletedLibraryIds d') = array_or_empty (d_deletedLibraryIds d)"
      and "d_practiceProgress d' = d_practiceProgress d" for d'
    using assms that by (simp add: pullAndMerge_def setDoc_def Let_def)
  have ok: "fst (pullAndMerge env w) = Inr ()"
    using assms by (simp add: pullAndMerge_def setDoc_def Let_def)
  have l1: "d_libraries d = NotArray \<longrightarrow>
      pullAndMerge env w = pullAndMerge env (w\<lparr>remote_doc := Some (d\<lparr>d_libraries := IsArray []\<rparr>)\<rparr>)"
    by (auto intro!: same simp: array_or_empty_def)
  have l2: "d_deletedLibraryIds d = NotArray \<longrightarrow>
      pullAndMerge env w =
        pullAndMerge env (w\<lparr>remote_doc := Some (d\<lparr>d_deletedLibraryIds := IsArray []\<rparr>)\<rparr>)"
    by (auto intro!: same simp: array_or_empty_def)
  have e1: "d_libraries d = NotArray \<Longrightarrow> array_or_empty (d_libraries d) = []"
    and e2: "d_deletedLibraryIds d = NotArray \<Longrightarrow> array_or_empty (d_deletedLibraryIds d) = []"
    by (simp_all add: array_or_empty_def)
  show ?thesis
    using libs l1 l2 ok e1 e2 by metis
qed


theorem progress_resolution_witness:
  "remote_doc
     \<lparr> local_store = \<lparr> ls_libraries = [], ls_deletedLibraryIds = [],
         ls_practiceProgress = Some \<lparr> pp_libraryId = ''a'', pp_position = 1, timestamp = 100 \<rparr> \<rparr>,
       remote_doc = Some \<lparr> d_libraries = IsArray [], d_deletedLibraryIds = IsArray [],
         d_practiceProgress = Some \<lparr> pp_libraryId = ''b'', pp_position = 2, timestamp = 100 \<rparr>,
         d_updatedAt = Some 1 \<rparr> \<rparr>
     = Some \<lparr> d_libraries = IsArray [], d_deletedLibraryIds = IsArray [],
         d_practiceProgress = Some \<lparr> pp_libraryId = ''b'', pp_position = 2, timestamp = 100 \<rparr>,
         d_updatedAt = Some 1 \<rparr> \<and>
   getDoc_error \<lparr> now = 1000, getDoc_error = None, setDoc_error = None,
       savePracticeProgress_throws = False \<rparr> = None \<and>
   setDoc_error \<lparr> now = 1000, getDoc_error = None, setDoc_error = None,
       savePracticeProgress_throws = False \<rparr> = None \<and>
   \<not> savePracticeProgress_throws \<lparr> now = 1000, getDoc_error = None, setDoc_error = None,
       savePracticeProgress_throws = False \<rparr> \<and>
   ls_practiceProgress (local_store (snd (pullAndMerge
     \<lparr> now = 1000, getDoc_error = None, setDoc_error = None,
       savePracticeProgress_throws = False \<rparr>
     \<lparr> local_store = \<lparr> ls_libraries = [], ls_deletedLibraryIds = [],
         ls_practiceProgress = Some \<lparr> pp_libraryId = ''a'', pp_position = 1, timestamp = 100 \<rparr> \<rparr>,
       remote_doc = Some \<lparr> d_libraries = IsArray [], d_deletedLibraryIds = IsArray [],
         d_practiceProgress = Some \<lparr> pp_libraryId = ''b'', pp_position = 2, timestamp = 100 \<rparr>,
         d_updatedAt = Some 1 \<rparr> \<rparr>)))
     = Some \<lparr> pp_libraryId = ''b'', pp_position = 2, timestamp = 100 \<rparr>"
  using progress_resolution [of
     "\<lparr> local_store = \<lparr> ls_libraries = [], ls_deletedLibraryIds = [],
         ls_practiceProgress = Some \<lparr> pp_libraryId = ''a'', pp_position = 1, timestamp = 100 \<rparr> \<rparr>,
       remote_doc = Some \<lparr> d_libraries = IsArray [], d_deletedLibraryIds = IsArray [],
         d_practiceProgress = Some \<lparr> pp_libraryId = ''b'', pp_position = 2, timestamp = 100 \<rparr>,
         d_updatedAt = Some 1 \<rparr> \<rparr>"
     "\<lparr> d_libraries = IsArray [], d_deletedLibraryIds = IsArray [],
         d_practiceProgress = Some \<lparr> pp_libraryId = ''b'', pp_position = 2, timestamp = 100 \<rparr>,
         d_updatedAt = Some 1 \<rparr>"
     "\<lparr> now = 1000, getDoc_error = None, setDoc_error = None,
       savePracticeProgress_throws = False \<rparr>"]
  by (simp add: Let_def)

theorem first_sync_upload_witness:
  "remote_doc \<lparr> local_store = \<lparr> ls_libraries = [mk_lib ''a'' ''mine'' 1 None],
       ls_deletedLibraryIds = [''b''], ls_practiceProgress = None \<rparr>, remote_doc = None \<rparr> = None \<and>
   getDoc_error \<lparr> now = 1000, getDoc_error = None, setDoc_error = None,
       savePracticeProgress_throws = False \<rparr> = None \<and>
   setDoc_error \<lparr> now = 1000, getDoc_error = None, setDoc_error = None,
       savePracticeProgress_throws = False \<rparr> = None \<and>
   pullAndMerge
     \<lparr> now = 1000, getDoc_error = None, setDoc_error = None,
       savePracticeProgress_throws = False \<rparr>
     \<lparr> local_store = \<lparr> ls_libraries = [mk_lib ''a'' ''mine'' 1 None],
       ls_deletedLibraryIds = [''b''], ls_practiceProgress = None \<rparr>, remote_doc = None \<rparr>
   = (Inr (),
      \<lparr> local_store = \<lparr> ls_libraries = [mk_lib ''a'' ''mine'' 1 None],
          ls_deletedLibraryIds = [''b''], ls_practiceProgress = None \<rparr>,
        remote_doc = Some \<lparr> d_libraries = IsArray [mk_lib ''a'' ''mine'' 1 None],
          d_deletedLibraryIds = IsArray [''b''], d_practiceProgress = None,
          d_updatedAt = Some 1000 \<rparr> \<rparr>)"
  using first_sync_upload [of
     "\<lparr> local_store = \<lparr> ls_libraries = [mk_lib ''a'' ''mine'' 1 None],
       ls_deletedLibraryIds = [''b''], ls_practiceProgress = None \<rparr>, remote_doc = None \<rparr>"
     "\<lparr> now = 1000, getDoc_error = None, setDoc_error = None,
       savePracticeProgress_throws = False \<rparr>"]
  by simp

theorem malformed_remote_coerced_witness:
  "remote_doc \<lparr> local_store = \<lparr> ls_libraries = [mk_lib ''a'' ''mine'' 1 None],
       ls_deletedLibraryIds = [], ls_practiceProgress = None \<rparr>,
       remote_doc = Some \<lparr> d_libraries = NotArray, d_deletedLibraryIds = NotArray,
         d_practiceProgress = None, d_updatedAt = None \<rparr> \<rparr>
     = Some \<lparr> d_libraries = NotArray, d_deletedLibraryIds = NotArray,
         d_practiceProgress = None, d_updatedAt = None \<rparr> \<and>
   getDoc_error \<lparr> now = 1000, getDoc_error = None, setDoc_error = None,
       savePracticeProgress_throws = False \<rparr> = None \<and>
   setDoc_error \<lparr> now = 1000, getDoc_error = None, setDoc_error = None,
       savePracticeProgress_throws = False \<rparr> = None \<and>
   d_libraries \<lparr> d_libraries = NotArray, d_deletedLibraryIds = NotArray,
         d_practiceProgress = None, d_updatedAt = None \<rparr> = NotArray \<and>
   d_deletedLibraryIds \<lparr> d_libraries = NotArray, d_deletedLibraryIds = NotArray,
         d_practiceProgress = None, d_updatedAt = None \<rparr> = (NotArray :: string js_field) \<and>
   fst (pullAndMerge
     \<lparr> now = 1000, getDoc_error = None, setDoc_error = None,
       savePracticeProgress_throws = False \<rparr>
     \<lparr> local_store = \<lparr> ls_libraries = [mk_lib ''a'' ''mine'' 1 None],
       ls_deletedLibraryIds = [], ls_practiceProgress = None \<rparr>,
       remote_doc = Some \<lparr> d_libraries = NotArray, d_deletedLibraryIds = NotArray,
         d_practiceProgress = None, d_updatedAt = None \<rparr> \<rparr>) = Inr () \<and>
   ls_libraries (local_store (snd (pullAndMerge
     \<lparr> now = 1000, getDoc_error = None, setDoc_error = None,
       savePracticeProgress_throws = False \<rparr>
     \<lparr> local_store = \<lparr> ls_libraries = [mk_lib ''a'' ''mine'' 1 None],
       ls_deletedLibraryIds = [], ls_practiceProgress = None \<rparr>,
       remote_doc = Some \<lparr> d_libraries = NotArray, d_deletedLibraryIds = NotArray,
         d_practiceProgress = None, d_updatedAt = None \<rparr> \<rparr>)))
     = merged (smartMergeLibraries [mk_lib ''a'' ''mine'' 1 None] [] [] [])"
proof -
  let ?d = "\<lparr> d_libraries = NotArray, d_deletedLibraryIds = NotArray,
      d_practiceProgress = None, d_updatedAt = None \<rparr>"
  let ?w = "\<lparr> local_store = \<lparr> ls_libraries = [mk_lib ''a'' ''mine'' 1 None],
      ls_deletedLibraryIds = [], ls_practiceProgress = None \<rparr>, remote_doc = Some ?d \<rparr>"
  let ?env = "\<lparr> now = 1000, getDoc_error = None, setDoc_error = None,
      savePracticeProgress_throws = False \<rparr>"
  have h: "remote_doc ?w = Some ?d" "getDoc_error ?env = None" "setDoc_error ?env = None"
    by simp_all
  note t = malformed_remote_coerced [OF h, THEN conjunct2, THEN conjunct2]
  from t show ?thesis
    by (simp add: array_or_empty_def)
qed

section \<open>The item-union merge\<close>

lemma keyed_lookup: "keyed D m \<Longrightarrow> map_of m k = Some v \<Longrightarrow> lib_id v = k"
  by (auto simp: keyed_def list_all_iff dest: map_of_SomeD)

lemma absorb_None: "absorb None lib = Some lib"
  by (simp add: absorb_def)

lemma absorb_Some:
  "absorb (Some e) lib = Some (e\<lparr>items := merge_items (items e) (items lib)\<rparr>)"
  by (simp add: absorb_def)

lemma pushLib_absorb:
  "pushLib m lib = AList.update (lib_id lib) (the (absorb (map_of m (lib_id lib)) lib)) m"
  by (simp add: pushLib_def absorb_def merge_items_def split: option.splits)

lemma map_of_pushLib:
  "map_of (pushLib m lib) i = (if lib_id lib = i then absorb (map_of m i) lib else map_of m i)"
  by (cases "map_of m (lib_id lib)") (auto simp: pushLib_absorb update_conv' absorb_def)

lemma map_of_foldl_pushLib:
  "map_of (foldl pushLib m xs) i = foldl absorb (map_of m i) (filter (\<lambda>l. lib_id l = i) xs)"
  by (induction xs arbitrary: m) (simp_all add: map_of_pushLib)

lemma keyed_pushLib: "keyed [] m \<Longrightarrow> keyed [] (pushLib m lib)"
proof -
  assume k: "keyed [] m"
  have "lib_id (the (absorb (map_of m (lib_id lib)) lib)) = lib_id lib"
    using keyed_lookup [OF k, of "lib_id lib"]
    by (cases "map_of m (lib_id lib)") (simp_all add: absorb_def)
  with k show ?thesis
    by (simp add: pushLib_absorb keyed_def distinct_update list_all_update)
qed

lemma keyed_foldl_pushLib: "keyed [] m \<Longrightarrow> keyed [] (foldl pushLib m xs)"
  by (induction xs arbitrary: m) (simp_all add: keyed_pushLib)

lemma mergeLibraries_entry:
  assumes "foldl absorb None (filter (\<lambda>l. lib_id l = i) (a @ b)) = Some v"
  shows "filter (\<lambda>l. lib_id l = i) (mergeLibraries a b) = [v]"
proof -
  let ?m = "foldl pushLib (foldl pushLib [] a) b"
  have "?m = foldl pushLib [] (a @ b)" by simp
  then have "map_of ?m i = foldl absorb None (filter (\<lambda>l. lib_id l = i) (a @ b))"
    using map_of_foldl_pushLib [of "[]" "a @ b" i] by simp
  with assms have "map_of ?m i = Some v" by simp
  moreover have "keyed [] ?m" by (intro keyed_foldl_pushLib keyed_Nil)
  ultimately have "filter (\<lambda>l. lib_id l = i) (map snd ?m) = [v]"
    by (rule keyed_filter [rotated])
  then show ?thesis by (simp add: mergeLibraries_def)
qed

lemma foldl_absorb_frame:
  "\<exists>its. foldl absorb (Some e) ys = Some (e\<lparr>items := its\<rparr>)"
proof (induction ys arbitrary: e)
  case Nil
  have "e = e\<lparr>items := items e\<rparr>" by simp
  then show ?case by (metis foldl_Nil)
next
  case (Cons y ys)
  obtain its where "foldl absorb (Some (e\<lparr>items := merge_items (items e) (items y)\<rparr>)) ys
      = Some (e\<lparr>items := merge_items (items e) (items y)\<rparr>\<lparr>items := its\<rparr>)"
    using Cons.IH by blast
  then show ?case by (auto simp: absorb_Some)
qed

lemma find_filter: "find P xs = Some x \<Longrightarrow> \<exists>ys. filter P xs = x # ys"
  by (induction xs) (auto split: if_splits)

text \<open>
  C10. In the item-union merge, the library returned for an id that the first input
  holds has the id, name, category, \<open>createdAt\<close> and \<open>updatedAt\<close> of the first
  input's (first) copy of that id, whatever the second input holds for it and whatever
  the timestamps are: only the items differ. This covers every id present in both
  inputs.
\<close>

theorem union_merge_frame:
  assumes "find (\<lambda>l. lib_id l = i) a = Some la"
  shows "\<exists>m. filter (\<lambda>l. lib_id l = i) (mergeLibraries a b) = [m] \<and>
           lib_id m = lib_id la \<and> lib_name m = lib_name la \<and> category m = category la \<and>
           createdAt m = createdAt la \<and> updatedAt m = updatedAt la"
proof -
  obtain ys where "filter (\<lambda>l. lib_id l = i) a = la # ys"
    using find_filter [OF assms] by blast
  then have "filter (\<lambda>l. lib_id l = i) (a @ b) = la # (ys @ filter (\<lambda>l. lib_id l = i) b)"
    by simp
  moreover obtain its where
    "foldl absorb (Some la) (ys @ filter (\<lambda>l. lib_id l = i) b) = Some (la\<lparr>items := its\<rparr>)"
    using foldl_absorb_frame by blast
  ultimately have "foldl absorb None (filter (\<lambda>l. lib_id l = i) (a @ b)) = Some (la\<lparr>items := its\<rparr>)"
    by (simp add: absorb_None)
  then have "filter (\<lambda>l. lib_id l = i) (mergeLibraries a b) = [la\<lparr>items := its\<rparr>]"
    by (rule mergeLibraries_entry)
  then show ?thesis by simp
qed


text \<open>
  The key \<open>type#english#chinese\<close> identifies the triple as long as the target text
  holds no \<open>#\<close>.
\<close>

lemma hash_split:
  "CHR ''#'' \<notin> set u \<Longrightarrow> CHR ''#'' \<notin> set v \<Longrightarrow>
   u @ CHR ''#'' # x = v @ CHR ''#'' # y \<Longrightarrow> u = v \<and> x = y"
proof (induction u arbitrary: v)
  case Nil
  then show ?case by (cases v) auto
next
  case (Cons c u)
  then show ?case by (cases v) auto
qed

lemma type_str_hash: "CHR ''#'' \<notin> set (type_str t)"
  by (cases t) (simp_all add: type_str_def)

lemma type_str_inj: "type_str s = type_str t \<Longrightarrow> s = t"
  by (cases s; cases t) (simp_all add: type_str_def)

lemma key_of_triple_inj:
  assumes "CHR ''#'' \<notin> set (fst (snd k1))" and "CHR ''#'' \<notin> set (fst (snd k2))"
    and "key_of_triple k1 = key_of_triple k2"
  shows "k1 = k2"
proof -
  obtain t1 e1 c1 where k1: "k1 = (t1, e1, c1)" by (cases k1)
  obtain t2 e2 c2 where k2: "k2 = (t2, e2, c2)" by (cases k2)
  from assms(3) have eq: "type_str t1 @ CHR ''#'' # (e1 @ CHR ''#'' # c1)
      = type_str t2 @ CHR ''#'' # (e2 @ CHR ''#'' # c2)"
    by (simp add: key_of_triple_def k1 k2)
  have a: "type_str t1 = type_str t2 \<and> e1 @ CHR ''#'' # c1 = e2 @ CHR ''#'' # c2"
    using hash_split [OF type_str_hash type_str_hash eq] .
  moreover have "e1 = e2 \<and> c1 = c2"
    using hash_split [of e1 e2 c1 c2] assms(1,2) a by (simp add: k1 k2)
  ultimately show ?thesis
    by (simp add: k1 k2 type_str_inj)
qed

lemma uniqueKey_triple: "uniqueKeyOfItem it = key_of_triple (item_triple it)"
  by (simp add: uniqueKeyOfItem_def key_of_triple_def item_triple_def)

text \<open>
  Without that condition the joined key does not identify the triple: a separator
  inside the target text shifts the boundary between the two texts.
\<close>

lemma uniqueKeyOfItem_collision:
  "uniqueKeyOfItem (mk_item ''1'' ''a#b'' ''c'' 1) = uniqueKeyOfItem (mk_item ''2'' ''a'' ''b#c'' 1) \<and>
   item_triple (mk_item ''1'' ''a#b'' ''c'' 1) \<noteq> item_triple (mk_item ''2'' ''a'' ''b#c'' 1)"
  by (simp add: uniqueKeyOfItem_def item_triple_def mk_item_def type_str_def)

lemma set_set_add: "set (set_add x s) = insert x (set s)"
  by (auto simp: set_add_def)

lemma push_items_new_items:
  assumes "\<forall>it \<in> set its. CHR ''#'' \<notin> set (english it)"
    and "\<forall>k \<in> set ks. CHR ''#'' \<notin> set (fst (snd k))"
    and "set seen = key_of_triple ` set ks"
  shows "push_items its seen acc = acc @ new_items ks its"
  using assms
proof (induction its arbitrary: seen ks acc)
  case Nil
  then show ?case by simp
next
  case (Cons it its)
  have e: "CHR ''#'' \<notin> set (fst (snd (item_triple it)))"
    using Cons.prems(1) by (simp add: item_triple_def)
  have mem: "(uniqueKeyOfItem it \<in> set seen) = (item_triple it \<in> set ks)"
  proof
    assume "uniqueKeyOfItem it \<in> set seen"
    then obtain k where k: "k \<in> set ks" and "key_of_triple (item_triple it) = key_of_triple k"
      using Cons.prems(3) by (auto simp: uniqueKey_triple)
    then have "item_triple it = k"
      using key_of_triple_inj [OF e] Cons.prems(2) by blast
    with k show "item_triple it \<in> set ks" by simp
  next
    assume "item_triple it \<in> set ks"
    then show "uniqueKeyOfItem it \<in> set seen"
      using Cons.prems(3) by (auto simp: uniqueKey_triple)
  qed
  show ?case
  proof (cases "item_triple it \<in> set ks")
    case True
    with mem have "push_items (it # its) seen acc = push_items its seen acc"
      by (simp add: Let_def)
    also have "\<dots> = acc @ new_items ks its"
      using Cons.IH [of ks seen acc] Cons.prems by simp
    finally show ?thesis using True by simp
  next
    case False
    with mem have "push_items (it # its) seen acc
        = push_items its (set_add (uniqueKeyOfItem it) seen) (acc @ [it])"
      by (simp add: Let_def)
    also have "\<dots> = (acc @ [it]) @ new_items (item_triple it # ks) its"
    proof (rule Cons.IH)
      show "\<forall>it \<in> set its. CHR ''#'' \<notin> set (english it)"
        using Cons.prems(1) by simp
      show "\<forall>k \<in> set (item_triple it # ks). CHR ''#'' \<notin> set (fst (snd k))"
        using Cons.prems(2) e by simp
      show "set (set_add (uniqueKeyOfItem it) seen) = key_of_triple ` set (item_triple it # ks)"
        using Cons.prems(3) by (simp add: set_set_add uniqueKey_triple)
    qed
    finally show ?thesis using False by simp
  qed
qed

lemma num_or_zero: "num_or t 0 = t"
  by (simp add: num_or_def)

lemma sort_items_desc: "sort_items its = sort_key (\<lambda>x. - item_createdAt x) its"
  by (simp add: sort_items_def num_or_zero)

lemma merge_items_spec:
  assumes "\<forall>it \<in> set ex \<union> set its. CHR ''#'' \<notin> set (english it)"
  shows "merge_items ex its
     = sort_key (\<lambda>x. - item_createdAt x) (ex @ new_items (map item_triple ex) its)"
proof -
  have "push_items its (new_Set (map uniqueKeyOfItem ex)) ex
      = ex @ new_items (map item_triple ex) its"
  proof (rule push_items_new_items)
    show "\<forall>it \<in> set its. CHR ''#'' \<notin> set (english it)" using assms by simp
    show "\<forall>k \<in> set (map item_triple ex). CHR ''#'' \<notin> set (fst (snd k))"
      using assms by (auto simp: item_triple_def)
    show "set (new_Set (map uniqueKeyOfItem ex)) = key_of_triple ` set (map item_triple ex)"
      by (auto simp: set_new_Set uniqueKey_triple)
  qed
  then show ?thesis by (simp add: merge_items_def sort_items_desc)
qed

lemma triples_new_items:
  "set ks \<union> item_triple ` set (new_items ks its) = set ks \<union> item_triple ` set its"
proof (induction its arbitrary: ks)
  case Nil
  then show ?case by simp
next
  case (Cons it its)
  show ?case
  proof (cases "item_triple it \<in> set ks")
    case True
    then show ?thesis using Cons.IH [of ks] by auto
  next
    case False
    have "set (item_triple it # ks) \<union> item_triple ` set (new_items (item_triple it # ks) its)
        = set (item_triple it # ks) \<union> item_triple ` set its"
      by (rule Cons.IH)
    with False show ?thesis by simp
  qed
qed

text \<open>
  C9, as the code has it. \<open>mergeLibraries\<close> takes the two library lists and nothing
  else. For an id that occurs once in each input, with item target texts free of
  \<open>#\<close>, it returns one library of that id whose items are all items of the first
  copy, followed by each item of the second copy whose triple of kind, target text and
  native text occurs neither in the first copy nor earlier in the second, stably
  sorted by \<open>createdAt\<close> descending. So the items are sorted, and their triples are
  those of both sides; items of the first copy that share a triple are all kept.
\<close>

theorem union_merge_items:
  assumes "filter (\<lambda>l. lib_id l = i) a = [la]"
    and "filter (\<lambda>l. lib_id l = i) b = [lb]"
    and "\<forall>it \<in> set (items la) \<union> set (items lb). CHR ''#'' \<notin> set (english it)"
  shows "\<exists>m. filter (\<lambda>l. lib_id l = i) (mergeLibraries a b) = [m] \<and>
           items m = sort_key (\<lambda>x. - item_createdAt x)
                       (items la @ new_items (map item_triple (items la)) (items lb)) \<and>
           sorted (map (\<lambda>x. - item_createdAt x) (items m)) \<and>
           item_triple ` set (items m) = item_triple ` (set (items la) \<union> set (items lb))"
proof -
  let ?its = "sort_key (\<lambda>x. - item_createdAt x)
                (items la @ new_items (map item_triple (items la)) (items lb))"
  have "foldl absorb None (filter (\<lambda>l. lib_id l = i) (a @ b))
      = Some (la\<lparr>items := merge_items (items la) (items lb)\<rparr>)"
    using assms(1,2) by (simp add: absorb_None absorb_Some)
  then have "filter (\<lambda>l. lib_id l = i) (mergeLibraries a b)
      = [la\<lparr>items := merge_items (items la) (items lb)\<rparr>]"
    by (rule mergeLibraries_entry)
  then have m: "filter (\<lambda>l. lib_id l = i) (mergeLibraries a b) = [la\<lparr>items := ?its\<rparr>]"
    using merge_items_spec [OF assms(3)] by simp
  have s: "sorted (map (\<lambda>x. - item_createdAt x) ?its)"
    by (rule sorted_sort_key)
  have "item_triple ` set ?its
      = item_triple ` set (items la) \<union> item_triple ` set (new_items (map item_triple (items la)) (items lb))"
    by (simp add: image_Un)
  also have "\<dots> = item_triple ` set (items la) \<union> item_triple ` set (items lb)"
    using triples_new_items [of "map item_triple (items la)" "items lb"] by simp
  finally have u: "item_triple ` set ?its = item_triple ` (set (items la) \<union> set (items lb))"
    by (simp add: image_Un)
  show ?thesis
    using m s u by simp
qed

text \<open>
  C9 as the spec words it fails: two items of the local copy with the same triple are
  both in the result, since only the items of the incoming copy are checked against
  the keys seen.
\<close>

theorem union_merge_duplicates_counterexample:
  "map items (mergeLibraries
      [(mk_lib ''a'' ''local'' 1 None)
         \<lparr>items := [mk_item ''1'' ''cat'' ''mao'' 5, mk_item ''2'' ''cat'' ''mao'' 3]\<rparr>]
      [mk_lib ''a'' ''remote'' 1 None])
     = [[mk_item ''1'' ''cat'' ''mao'' 5, mk_item ''2'' ''cat'' ''mao'' 3]] \<and>
   item_triple (mk_item ''1'' ''cat'' ''mao'' 5) = item_triple (mk_item ''2'' ''cat'' ''mao'' 3)"
  by (simp add: mergeLibraries_def pushLib_def mk_lib_def mk_item_def new_Set_def set_add_def
      sort_items_def num_or_def item_triple_def uniqueKeyOfItem_def type_str_def)


theorem union_merge_frame_witness:
  "find (\<lambda>l. lib_id l = ''a'') [mk_lib ''a'' ''local'' 1 (Some 5)]
     = Some (mk_lib ''a'' ''local'' 1 (Some 5)) \<and>
   (\<exists>m. filter (\<lambda>l. lib_id l = ''a'')
          (mergeLibraries [mk_lib ''a'' ''local'' 1 (Some 5)] [mk_lib ''a'' ''remote'' 2 (Some 9)])
          = [m] \<and>
        lib_id m = ''a'' \<and> lib_name m = ''local'' \<and> category m = None \<and>
        createdAt m = 1 \<and> updatedAt m = Some 5)"
  using union_merge_frame [of "''a''" "[mk_lib ''a'' ''local'' 1 (Some 5)]"
      "mk_lib ''a'' ''local'' 1 (Some 5)" "[mk_lib ''a'' ''remote'' 2 (Some 9)]"]
  by (simp add: mk_lib_def)

theorem union_merge_items_witness:
  "filter (\<lambda>l. lib_id l = ''a'')
      [(mk_lib ''a'' ''local'' 1 None)\<lparr>items := [mk_item ''1'' ''cat'' ''mao'' 5]\<rparr>]
     = [(mk_lib ''a'' ''local'' 1 None)\<lparr>items := [mk_item ''1'' ''cat'' ''mao'' 5]\<rparr>] \<and>
   filter (\<lambda>l. lib_id l = ''a'')
      [(mk_lib ''a'' ''remote'' 1 None)
         \<lparr>items := [mk_item ''2'' ''cat'' ''mao'' 7, mk_item ''3'' ''dog'' ''gou'' 9]\<rparr>]
     = [(mk_lib ''a'' ''remote'' 1 None)
         \<lparr>items := [mk_item ''2'' ''cat'' ''mao'' 7, mk_item ''3'' ''dog'' ''gou'' 9]\<rparr>] \<and>
   CHR ''#'' \<notin> set (english (mk_item ''1'' ''cat'' ''mao'' 5)) \<and>
   CHR ''#'' \<notin> set (english (mk_item ''2'' ''cat'' ''mao'' 7)) \<and>
   CHR ''#'' \<notin> set (english (mk_item ''3'' ''dog'' ''gou'' 9)) \<and>
   (\<exists>m. filter (\<lambda>l. lib_id l = ''a'')
          (mergeLibraries
             [(mk_lib ''a'' ''local'' 1 None)\<lparr>items := [mk_item ''1'' ''cat'' ''mao'' 5]\<rparr>]
             [(mk_lib ''a'' ''remote'' 1 None)
                \<lparr>items := [mk_item ''2'' ''cat'' ''mao'' 7, mk_item ''3'' ''dog'' ''gou'' 9]\<rparr>])
          = [m] \<and>
        items m = [mk_item ''3'' ''dog'' ''gou'' 9, mk_item ''1'' ''cat'' ''mao'' 5])"
  using union_merge_items [of "''a''"
      "[(mk_lib ''a'' ''local'' 1 None)\<lparr>items := [mk_item ''1'' ''cat'' ''mao'' 5]\<rparr>]"
      "(mk_lib ''a'' ''local'' 1 None)\<lparr>items := [mk_item ''1'' ''cat'' ''mao'' 5]\<rparr>"
      "[(mk_lib ''a'' ''remote'' 1 None)
         \<lparr>items := [mk_item ''2'' ''cat'' ''mao'' 7, mk_item ''3'' ''dog'' ''gou'' 9]\<rparr>]"
      "(mk_lib ''a'' ''remote'' 1 None)
         \<lparr>items := [mk_item ''2'' ''cat'' ''mao'' 7, mk_item ''3'' ''dog'' ''gou'' 9]\<rparr>"]
  by (simp add: mk_lib_def mk_item_def item_triple_def) blast

end
